theory Spec2Isabelle
  imports Complex_Main
begin

section \<open>Numbers\<close>

text \<open>
  The program computes with JavaScript numbers. They are modelled as ideal real numbers
  together with NaN: \<open>None\<close> is NaN, \<open>Some x\<close> is the number \<open>x\<close>. Rounding and overflow of
  IEEE doubles are outside this model; the step composer has a second model with the
  range of doubles further down. The value \<open>undefined\<close>, which a finished iterator
  hands out, is \<open>None\<close> as well: every arithmetic operation of the program turns it
  into NaN.
\<close>

type_synonym number = "real option"

text \<open>\<^verbatim>\<open>Math.sqrt\<close>: NaN on a negative argument.\<close>

definition Math_sqrt :: "real \<Rightarrow> number" where
  "Math_sqrt x = (if x < 0 then None else Some (sqrt x))"

text \<open>\<^verbatim>\<open>a + b\<close> on numbers: NaN is absorbing.\<close>

fun number_add :: "number \<Rightarrow> number \<Rightarrow> number" where
  "number_add (Some a) (Some b) = Some (a + b)"
| "number_add _ _ = None"

text \<open>
  \<^verbatim>\<open>radiusLimit\<close> is a number that may be \<^verbatim>\<open>Infinity\<close> (its default value).
\<close>

datatype limit = Infinity | Finite real

text \<open>\<^verbatim>\<open>p >= radiusLimit\<close>: false when \<open>p\<close> is NaN, false for a finite \<open>p\<close> against Infinity.\<close>

fun number_ge :: "number \<Rightarrow> limit \<Rightarrow> bool" where
  "number_ge None _ = False"
| "number_ge (Some p) Infinity = False"
| "number_ge (Some p) (Finite r) = (r \<le> p)"

section \<open>Iterables\<close>

text \<open>
  An iterable is either restartable (an array: every call of \<^verbatim>\<open>[Symbol.iterator]()\<close>
  makes a fresh iterator at the first element) or a generator object (its
  \<^verbatim>\<open>[Symbol.iterator]()\<close> returns the object itself). A generator object is given by the
  sequence of values it yields and a cursor; \<open>None\<close> in the sequence means that the
  generator has finished, and a finished generator stays finished.
\<close>

datatype 'a iterable = Array "'a list" | Generator "nat \<Rightarrow> 'a option" nat

text \<open>
  \<^verbatim>\<open>it[Symbol.iterator]().next().value\<close>: the value (\<open>None\<close> is \<^verbatim>\<open>undefined\<close>) and the
  iterable afterwards.
\<close>

fun next_value :: "'a iterable \<Rightarrow> 'a option \<times> 'a iterable" where
  "next_value (Array []) = (None, Array [])"
| "next_value (Array (x # xs)) = (Some x, Array (x # xs))"
| "next_value (Generator g i) =
     (case g i of None \<Rightarrow> (None, Generator g i) | Some v \<Rightarrow> (Some v, Generator g (Suc i)))"

text \<open>
  \<^verbatim>\<open>[...take(it, n)]\<close>: the \<open>n\<close> values that \<^verbatim>\<open>take\<close> yields, and the iterable afterwards.
\<close>

fun take_iter :: "'a iterable \<Rightarrow> nat \<Rightarrow> 'a option list \<times> 'a iterable" where
  "take_iter it 0 = ([], it)"
| "take_iter it (Suc n) =
     (let (v, it') = next_value it;
          (vs, it'') = take_iter it' n
      in (v # vs, it''))"

text \<open>One round of the loop of \<^verbatim>\<open>pairStreams\<close>: the tuple it yields, and both iterables.\<close>

definition pairStreams_next ::
  "'a iterable \<Rightarrow> 'b iterable \<Rightarrow> ('a option \<times> 'b option) \<times> 'a iterable \<times> 'b iterable" where
  "pairStreams_next it1 it2 =
     (let (a, it1') = next_value it1;
          (b, it2') = next_value it2
      in ((a, b), it1', it2'))"

text \<open>The first \<open>k\<close> tuples of \<^verbatim>\<open>pairStreams(it1, it2)\<close>.\<close>

fun pairStreams :: "'a iterable \<Rightarrow> 'b iterable \<Rightarrow> nat \<Rightarrow> ('a option \<times> 'b option) list" where
  "pairStreams it1 it2 0 = []"
| "pairStreams it1 it2 (Suc k) =
     (let (p, it1', it2') = pairStreams_next it1 it2
      in p # pairStreams it1' it2' k)"

section \<open>The direction sampler\<close>

text \<open>
  \<^verbatim>\<open>Math.random()\<close> is a global source of draws: the sequence \<open>random\<close> of all the draws
  of a run, and a cursor that counts the calls made so far.
\<close>

definition Math_random :: "(nat \<Rightarrow> real) \<Rightarrow> nat \<Rightarrow> real \<times> nat" where
  "Math_random random c = (random c, Suc c)"

text \<open>
  One tuple of \<^verbatim>\<open>pointStream\<close> in \<^verbatim>\<open>createThetaStream\<close>. Both streams handed to
  \<^verbatim>\<open>pairStreams\<close> draw from \<^verbatim>\<open>Math.random()\<close>; the first component is pulled first and
  scaled by \<^verbatim>\<open>Math.PI\<close>.
\<close>

definition pointStream_next :: "(nat \<Rightarrow> real) \<Rightarrow> nat \<Rightarrow> (real \<times> real) \<times> nat" where
  "pointStream_next random c =
     (let (x, c1) = Math_random random c;
          (u, c2) = Math_random random c1
      in ((x * pi, u), c2))"

text \<open>
  One \<^verbatim>\<open>next()\<close> of \<^verbatim>\<open>createThetaStream\<close>: the loop over \<^verbatim>\<open>pointStream\<close> runs until a
  tuple passes the test, and may run forever (the result is \<open>None\<close> then).
\<close>

partial_function (option) createThetaStream :: "(nat \<Rightarrow> real) \<Rightarrow> nat \<Rightarrow> (real \<times> nat) option" where
  "createThetaStream random c =
     (let (p, c') = pointStream_next random c
      in if snd p \<le> sin (fst p) then Some (fst p, c') else createThetaStream random c')"

section \<open>Composing steps\<close>

definition calculateDistance :: "number \<Rightarrow> number \<Rightarrow> number" where
  "calculateDistance d theta =
     (case d of None \<Rightarrow> None
      | Some dv \<Rightarrow>
          (case theta of None \<Rightarrow> None
           | Some t \<Rightarrow> Math_sqrt (1 + dv ^ 2 - 2 * dv * cos t)))"

text \<open>The callback of \<^verbatim>\<open>reduce\<close> in \<^verbatim>\<open>createDistanceStream\<close>.\<close>

definition advance :: "limit \<Rightarrow> number \<Rightarrow> number \<Rightarrow> number" where
  "advance radiusLimit p c = (if number_ge p radiusLimit then p else calculateDistance p c)"

text \<open>
  One round of the loop of \<^verbatim>\<open>createDistanceStream\<close>: the distance it yields and the
  angle stream afterwards. The angle stream is any iterable; the program hands in the
  generator object of \<^verbatim>\<open>createThetaStream\<close>, whose sequence of values is the sequence of
  angles that the sampler emits.
\<close>

definition createDistanceStream_next ::
  "nat \<Rightarrow> real iterable \<Rightarrow> limit \<Rightarrow> number \<times> real iterable" where
  "createDistanceStream_next steps thetaStream radiusLimit =
     (let (thetaArray, thetaStream') = take_iter thetaStream steps
      in (foldl (advance radiusLimit) (Some 0) thetaArray, thetaStream'))"

text \<open>
  \<^verbatim>\<open>[...take(createDistanceStream(steps, thetaStream, radiusLimit), n)]\<close>: the generator
  object is its own iterator, so these are its first \<open>n\<close> distances.
\<close>

fun createDistanceStream ::
  "nat \<Rightarrow> real iterable \<Rightarrow> limit \<Rightarrow> nat \<Rightarrow> number list \<times> real iterable" where
  "createDistanceStream steps thetaStream radiusLimit 0 = ([], thetaStream)"
| "createDistanceStream steps thetaStream radiusLimit (Suc n) =
     (let (d, thetaStream') = createDistanceStream_next steps thetaStream radiusLimit;
          (ds, thetaStream'') = createDistanceStream steps thetaStream' radiusLimit n
      in (d # ds, thetaStream''))"

section \<open>The radius sweep\<close>

definition steps :: nat where
  "steps = 5"

definition sampleSize :: nat where
  "sampleSize = 10000000"

definition significantFigures :: int where
  "significantFigures = 3"

text \<open>The \<^verbatim>\<open>for\<close> loop of \<^verbatim>\<open>createRadiusStream\<close>, from the counter \<open>i\<close> on.\<close>

function radiusLoop :: "real \<Rightarrow> real \<Rightarrow> nat \<Rightarrow> real list" where
  "radiusLoop unit bound i =
     (if real i \<le> bound then unit * real i # radiusLoop unit bound (Suc i) else [])"
  by pat_completeness auto
termination
proof (relation "measure (\<lambda>(unit, bound, i). nat \<lfloor>bound\<rfloor> + 1 - i)")
  show "wf (measure (\<lambda>(unit, bound, i). nat \<lfloor>bound\<rfloor> + 1 - i))"
    by simp
next
  fix unit bound :: real and i :: nat
  assume "real i \<le> bound"
  then have "int i \<le> \<lfloor>bound\<rfloor>"
    by (simp add: le_floor_iff)
  then have "i \<le> nat \<lfloor>bound\<rfloor>"
    by linarith
  then show "((unit, bound, Suc i), (unit, bound, i))
      \<in> measure (\<lambda>(unit, bound, i). nat \<lfloor>bound\<rfloor> + 1 - i)"
    by simp
qed

declare radiusLoop.simps [simp del]

definition createRadiusStream :: "int \<Rightarrow> real list" where
  "createRadiusStream sf =
     (let n = 10 powi (sf - 1);
          unit = 1 / n
      in radiusLoop unit (real steps * n) 1)"

record SimulationResults =
  radius :: real
  averageDistance :: number
  percentEscaped :: number

text \<open>
  \<^verbatim>\<open>x / distances.length\<close>. Both numerators of the program are 0 when the array is empty,
  and \<^verbatim>\<open>0 / 0\<close> is NaN.
\<close>

definition divide_length :: "number \<Rightarrow> nat \<Rightarrow> number" where
  "divide_length x len =
     (case x of None \<Rightarrow> None
      | Some xv \<Rightarrow> if len = 0 then None else Some (xv / real len))"

definition number_times :: "number \<Rightarrow> real \<Rightarrow> number" where
  "number_times x k = (case x of None \<Rightarrow> None | Some xv \<Rightarrow> Some (xv * k))"

text \<open>The reductions of the callback of \<^verbatim>\<open>results\<close> over the array \<^verbatim>\<open>distances\<close>.\<close>

definition aggregate :: "number list \<Rightarrow> real \<Rightarrow> SimulationResults" where
  "aggregate distances r =
     (let average = divide_length (foldl number_add (Some 0) distances) (length distances);
          escapedDistances = filter (\<lambda>d. number_ge d (Finite r)) distances;
          percent = number_times
            (divide_length (Some (real (length escapedDistances))) (length distances)) 100
      in \<lparr>radius = r, averageDistance = average, percentEscaped = percent\<rparr>)"

text \<open>The callback of \<^verbatim>\<open>results\<close>: one radius, on the shared angle stream.\<close>

definition simulate :: "real iterable \<Rightarrow> real \<Rightarrow> SimulationResults \<times> real iterable" where
  "simulate thetaStram r =
     (let (distances, thetaStram') = createDistanceStream 5 thetaStram (Finite r) sampleSize
      in (aggregate distances r, thetaStram'))"

text \<open>\<^verbatim>\<open>[...results]\<close>: the callback mapped over the radii, in their order.\<close>

fun results :: "real list \<Rightarrow> real iterable \<Rightarrow> SimulationResults list" where
  "results [] thetaStram = []"
| "results (r # radiusStream) thetaStram =
     (let (res, thetaStram') = simulate thetaStram r
      in res # results radiusStream thetaStram')"

section \<open>The step composer on doubles\<close>

text \<open>
  A finer model of \<^verbatim>\<open>calculateDistance\<close>, for the claims that depend on the range of
  IEEE doubles. A double is NaN, an infinity or a finite value. An operation whose exact
  result reaches the overflow threshold \<open>2 ^ 1024 - 2 ^ 970\<close> gives an infinity, as rounding
  to the nearest double does. The rounding of a finite result to the nearest double is
  not modelled, and negative zero is identified with zero; theorems on this model are
  stated only where that rounding does not change them.
\<close>

datatype double = NaN | PosInf | NegInf | Fin real

definition overflow_threshold :: real where
  "overflow_threshold = 2 ^ 1024 - 2 ^ 970"

text \<open>The double for an exact result \<open>x\<close>.\<close>

definition rounded :: "real \<Rightarrow> double" where
  "rounded x =
     (if overflow_threshold \<le> x then PosInf
      else if x \<le> - overflow_threshold then NegInf
      else Fin x)"

text \<open>The operators \<^verbatim>\<open>-a\<close>, \<^verbatim>\<open>a + b\<close>, \<^verbatim>\<open>a - b\<close>, \<^verbatim>\<open>a * b\<close> and \<^verbatim>\<open>a ** 2\<close> on doubles.\<close>

fun double_neg :: "double \<Rightarrow> double" where
  "double_neg NaN = NaN"
| "double_neg PosInf = NegInf"
| "double_neg NegInf = PosInf"
| "double_neg (Fin a) = Fin (- a)"

fun double_add :: "double \<Rightarrow> double \<Rightarrow> double" where
  "double_add (Fin a) (Fin b) = rounded (a + b)"
| "double_add NaN _ = NaN"
| "double_add _ NaN = NaN"
| "double_add PosInf NegInf = NaN"
| "double_add NegInf PosInf = NaN"
| "double_add PosInf _ = PosInf"
| "double_add _ PosInf = PosInf"
| "double_add NegInf _ = NegInf"
| "double_add _ NegInf = NegInf"

definition double_sub :: "double \<Rightarrow> double \<Rightarrow> double" where
  "double_sub a b = double_add a (double_neg b)"

fun double_mul :: "double \<Rightarrow> double \<Rightarrow> double" where
  "double_mul (Fin a) (Fin b) = rounded (a * b)"
| "double_mul NaN _ = NaN"
| "double_mul _ NaN = NaN"
| "double_mul (Fin a) y = (if a = 0 then NaN else if 0 < a then y else double_neg y)"
| "double_mul x (Fin b) = (if b = 0 then NaN else if 0 < b then x else double_neg x)"
| "double_mul PosInf y = y"
| "double_mul NegInf y = double_neg y"

fun double_square :: "double \<Rightarrow> double" where
  "double_square (Fin a) = rounded (a ^ 2)"
| "double_square NaN = NaN"
| "double_square _ = PosInf"

text \<open>\<^verbatim>\<open>Math.sqrt\<close> and \<^verbatim>\<open>Math.cos\<close> on doubles.\<close>

fun Math_sqrt_double :: "double \<Rightarrow> double" where
  "Math_sqrt_double (Fin a) = (if a < 0 then NaN else Fin (sqrt a))"
| "Math_sqrt_double PosInf = PosInf"
| "Math_sqrt_double _ = NaN"

fun Math_cos_double :: "double \<Rightarrow> double" where
  "Math_cos_double (Fin t) = Fin (cos t)"
| "Math_cos_double _ = NaN"

text \<open>\<^verbatim>\<open>Math.sqrt(1 + d ** 2 - 2 * d * Math.cos(theta))\<close>, operator by operator.\<close>

definition calculateDistance_double :: "double \<Rightarrow> double \<Rightarrow> double" where
  "calculateDistance_double d theta =
     Math_sqrt_double
       (double_sub (double_add (Fin 1) (double_square d))
          (double_mul (double_mul (Fin 2) d) (Math_cos_double theta)))"

section \<open>Properties of a single step\<close>

lemma radicand_nonneg: "0 \<le> 1 + d ^ 2 - 2 * d * cos t" for d t :: real
proof -
  have "(d - cos t) ^ 2 + (sin t) ^ 2 = d ^ 2 - 2 * d * cos t + ((sin t)^2 + (cos t) ^ 2)"
    by (simp add: power2_diff)
  then have "(d - cos t) ^ 2 + (sin t) ^ 2 = 1 + d ^ 2 - 2 * d * cos t"
    by simp
  moreover have "0 \<le> (d - cos t) ^ 2 + (sin t) ^ 2"
    by simp
  ultimately show ?thesis by simp
qed

lemma calculateDistance_Some:
  "calculateDistance (Some d) (Some t) = Some (sqrt (1 + d ^ 2 - 2 * d * cos t))"
  using radicand_nonneg [of d t] by (simp add: calculateDistance_def Math_sqrt_def)








section \<open>Properties of iterables\<close>

lemma take_iter_Array_Cons: "take_iter (Array (x # xs)) n = (replicate n (Some x), Array (x # xs))"
  by (induction n) simp_all

lemma take_iter_Array_Nil: "take_iter (Array []) n = (replicate n None, Array [])"
  by (induction n) simp_all

lemma take_iter_Generator:
  "(\<forall>j<n. g (i + j) \<noteq> None) \<Longrightarrow>
   take_iter (Generator g i) n = (map g [i..<i + n], Generator g (i + n))"
proof (induction n arbitrary: i)
  case 0
  then show ?case by simp
next
  case (Suc n)
  from Suc.prems have "g (i + 0) \<noteq> None"
    by blast
  then obtain v where v: "g i = Some v"
    by auto
  have "\<forall>j<n. g (Suc i + j) \<noteq> None"
  proof (intro allI impI)
    fix j assume "j < n"
    then have "Suc j < Suc n" by simp
    with Suc.prems have "g (i + Suc j) \<noteq> None" by blast
    then show "g (Suc i + j) \<noteq> None" by simp
  qed
  then have "take_iter (Generator g (Suc i)) n = (map g [Suc i..<Suc i + n], Generator g (Suc i + n))"
    by (rule Suc.IH)
  moreover have "[i..<i + Suc n] = i # [Suc i..<Suc i + n]"
    by (simp add: upt_conv_Cons)
  ultimately show ?case
    using v by simp
qed


lemma pairStreams_Array:
  "pairStreams (Array (x # xs)) (Array (y # ys)) k = replicate k (Some x, Some y)"
  by (induction k) (simp_all add: pairStreams_next_def)

lemma pairStreams_Generator:
  "(\<forall>j<k. g (i + j) \<noteq> None \<and> h (l + j) \<noteq> None) \<Longrightarrow>
   pairStreams (Generator g i) (Generator h l) k = zip (map g [i..<i + k]) (map h [l..<l + k])"
proof (induction k arbitrary: i l)
  case 0
  then show ?case by simp
next
  case (Suc k)
  from Suc.prems have "g (i + 0) \<noteq> None \<and> h (l + 0) \<noteq> None"
    by blast
  then obtain v w where v: "g i = Some v" and w: "h l = Some w"
    by auto
  have "\<forall>j<k. g (Suc i + j) \<noteq> None \<and> h (Suc l + j) \<noteq> None"
  proof (intro allI impI)
    fix j assume "j < k"
    then have "Suc j < Suc k" by simp
    with Suc.prems have "g (i + Suc j) \<noteq> None \<and> h (l + Suc j) \<noteq> None" by blast
    then show "g (Suc i + j) \<noteq> None \<and> h (Suc l + j) \<noteq> None" by simp
  qed
  then have "pairStreams (Generator g (Suc i)) (Generator h (Suc l)) k =
      zip (map g [Suc i..<Suc i + k]) (map h [Suc l..<Suc l + k])"
    by (rule Suc.IH)
  moreover have "[i..<i + Suc k] = i # [Suc i..<Suc i + k]" "[l..<l + Suc k] = l # [Suc l..<Suc l + k]"
    by (simp_all add: upt_conv_Cons)
  ultimately show ?case
    using v w by (simp add: pairStreams_next_def)
qed

lemma advance_frozen: "number_ge p radiusLimit \<Longrightarrow> foldl (advance radiusLimit) p cs = p"
  by (induction cs) (simp_all add: advance_def)

lemma createDistanceStream_next_frozen:
  assumes "k \<le> stepCount"
    and "foldl (advance radiusLimit) (Some 0) (take k (fst (take_iter thetaStream stepCount))) = p"
    and "number_ge p radiusLimit"
  shows "fst (createDistanceStream_next stepCount thetaStream radiusLimit) = p"
proof -
  obtain thetaArray thetaStream' where t: "take_iter thetaStream stepCount = (thetaArray, thetaStream')"
    by (cases "take_iter thetaStream stepCount")
  have "foldl (advance radiusLimit) (Some 0) thetaArray =
      foldl (advance radiusLimit) (foldl (advance radiusLimit) (Some 0) (take k thetaArray)) (drop k thetaArray)"
    by (simp flip: foldl_append)
  also have "\<dots> = foldl (advance radiusLimit) p (drop k thetaArray)"
    using assms(2) t by simp
  also have "\<dots> = p"
    using assms(3) by (rule advance_frozen)
  finally show ?thesis
    using t by (simp add: createDistanceStream_next_def)
qed

lemma createDistanceStream_next_Generator:
  "(\<forall>j<stepCount. g (i + j) \<noteq> None) \<Longrightarrow>
   createDistanceStream_next stepCount (Generator g i) radiusLimit =
     (foldl (advance radiusLimit) (Some 0) (map g [i..<i + stepCount]), Generator g (i + stepCount))"
  by (simp add: createDistanceStream_next_def take_iter_Generator)

lemma createDistanceStream_Generator:
  "(\<forall>j<n * stepCount. g (i + j) \<noteq> None) \<Longrightarrow>
   snd (createDistanceStream stepCount (Generator g i) radiusLimit n) = Generator g (i + n * stepCount)"
proof (induction n arbitrary: i)
  case 0
  then show ?case by simp
next
  case (Suc n)
  have first: "\<forall>j<stepCount. g (i + j) \<noteq> None"
    using Suc.prems by simp
  have "\<forall>j<n * stepCount. g (i + stepCount + j) \<noteq> None"
  proof (intro allI impI)
    fix j assume "j < n * stepCount"
    then have "stepCount + j < Suc n * stepCount" by simp
    with Suc.prems have "g (i + (stepCount + j)) \<noteq> None" by blast
    then show "g (i + stepCount + j) \<noteq> None" by (simp add: add.assoc)
  qed
  then have "snd (createDistanceStream stepCount (Generator g (i + stepCount)) radiusLimit n) =
      Generator g (i + stepCount + n * stepCount)"
    by (rule Suc.IH)
  then show ?case
    using first by (simp add: createDistanceStream_next_Generator case_prod_beta add.assoc)
qed

section \<open>Properties of paths\<close>

lemma calculateDistance_zero: "calculateDistance (Some 0) (Some t) = Some 1"
  by (simp add: calculateDistance_Some)



section \<open>Properties of the sampler\<close>

lemma createThetaStream_unfold:
  "createThetaStream random c =
     (if random (Suc c) \<le> sin (random c * pi) then Some (random c * pi, Suc (Suc c))
      else createThetaStream random (Suc (Suc c)))"
  by (subst createThetaStream.simps) (simp add: pointStream_next_def Math_random_def)

lemma createThetaStream_accepts:
  "(\<forall>j<m. \<not> random (c + 2 * j + 1) \<le> sin (random (c + 2 * j) * pi)) \<Longrightarrow>
   random (c + 2 * m + 1) \<le> sin (random (c + 2 * m) * pi) \<Longrightarrow>
   createThetaStream random c = Some (random (c + 2 * m) * pi, c + 2 * m + 2)"
proof (induction m arbitrary: c)
  case 0
  then show ?case
    by (subst createThetaStream_unfold) simp
next
  case (Suc m)
  have "0 < Suc m" by simp
  with Suc.prems(1) have "\<not> random (c + 2 * 0 + 1) \<le> sin (random (c + 2 * 0) * pi)"
    by blast
  then have rej: "\<not> random (Suc c) \<le> sin (random c * pi)"
    by simp
  have "\<forall>j<m. \<not> random (Suc (Suc c) + 2 * j + 1) \<le> sin (random (Suc (Suc c) + 2 * j) * pi)"
  proof (intro allI impI)
    fix j assume "j < m"
    then have "Suc j < Suc m" by simp
    with Suc.prems(1) have "\<not> random (c + 2 * Suc j + 1) \<le> sin (random (c + 2 * Suc j) * pi)"
      by blast
    then show "\<not> random (Suc (Suc c) + 2 * j + 1) \<le> sin (random (Suc (Suc c) + 2 * j) * pi)"
      by simp
  qed
  moreover from Suc.prems(2)
  have "random (Suc (Suc c) + 2 * m + 1) \<le> sin (random (Suc (Suc c) + 2 * m) * pi)"
    by simp
  ultimately have "createThetaStream random (Suc (Suc c)) =
      Some (random (Suc (Suc c) + 2 * m) * pi, Suc (Suc c) + 2 * m + 2)"
    by (rule Suc.IH)
  then have "createThetaStream random (Suc (Suc c)) =
      Some (random (c + 2 * Suc m) * pi, c + 2 * Suc m + 2)"
    by simp
  moreover have "createThetaStream random c = createThetaStream random (Suc (Suc c))"
    using rej by (subst createThetaStream_unfold) simp
  ultimately show ?case
    by (rule trans [rotated])
qed

lemma createThetaStream_emitted:
  assumes "createThetaStream random c = Some y"
  shows "\<exists>m. (\<forall>j<m. \<not> random (c + 2 * j + 1) \<le> sin (random (c + 2 * j) * pi)) \<and>
       random (c + 2 * m + 1) \<le> sin (random (c + 2 * m) * pi) \<and>
       y = (random (c + 2 * m) * pi, c + 2 * m + 2)"
  using assms
proof (induction random c y rule: createThetaStream.raw_induct [rotated 1, consumes 1, case_names 1])
  case (1 loop random c y)
  show ?case
  proof (cases "random (Suc c) \<le> sin (random c * pi)")
    case True
    with 1(2) have "y = (random c * pi, Suc (Suc c))"
      by (simp add: pointStream_next_def Math_random_def)
    with True have "(\<forall>j<0. \<not> random (c + 2 * j + 1) \<le> sin (random (c + 2 * j) * pi)) \<and>
       random (c + 2 * 0 + 1) \<le> sin (random (c + 2 * 0) * pi) \<and>
       y = (random (c + 2 * 0) * pi, c + 2 * 0 + 2)"
      by simp
    then show ?thesis
      by (rule exI)
  next
    case False
    with 1(2) have "loop random (Suc (Suc c)) = Some y"
      by (simp add: pointStream_next_def Math_random_def)
    from 1(1) [OF this] obtain m where
      m1: "\<forall>j<m. \<not> random (Suc (Suc c) + 2 * j + 1) \<le> sin (random (Suc (Suc c) + 2 * j) * pi)"
      and m2: "random (Suc (Suc c) + 2 * m + 1) \<le> sin (random (Suc (Suc c) + 2 * m) * pi)"
      and m3: "y = (random (Suc (Suc c) + 2 * m) * pi, Suc (Suc c) + 2 * m + 2)"
      by (elim exE conjE)
    have "\<forall>j<Suc m. \<not> random (c + 2 * j + 1) \<le> sin (random (c + 2 * j) * pi)"
    proof (intro allI impI)
      fix j assume j: "j < Suc m"
      show "\<not> random (c + 2 * j + 1) \<le> sin (random (c + 2 * j) * pi)"
      proof (cases j)
        case 0
        with False show ?thesis by simp
      next
        case (Suc j')
        with j have "j' < m" by simp
        with m1 have "\<not> random (Suc (Suc c) + 2 * j' + 1) \<le> sin (random (Suc (Suc c) + 2 * j') * pi)"
          by blast
        with Suc show ?thesis by simp
      qed
    qed
    moreover from m2 have "random (c + 2 * Suc m + 1) \<le> sin (random (c + 2 * Suc m) * pi)"
      by simp
    moreover from m3 have "y = (random (c + 2 * Suc m) * pi, c + 2 * Suc m + 2)"
      by simp
    ultimately have "(\<forall>j<Suc m. \<not> random (c + 2 * j + 1) \<le> sin (random (c + 2 * j) * pi)) \<and>
       random (c + 2 * Suc m + 1) \<le> sin (random (c + 2 * Suc m) * pi) \<and>
       y = (random (c + 2 * Suc m) * pi, c + 2 * Suc m + 2)"
      by (intro conjI)
    then show ?thesis
      by (rule exI)
  qed
qed

section \<open>Properties of batches, the aggregator and the radius stream\<close>





lemma foldl_number_add: "foldl number_add (Some a) (map Some ds) = Some (a + sum_list ds)"
  by (induction ds arbitrary: a) (simp_all add: add.assoc)

lemma filter_number_ge:
  "filter (\<lambda>d. number_ge d (Finite r)) (map Some ds) = map Some (filter (\<lambda>d. r \<le> d) ds)"
  by (induction ds) simp_all

lemma aggregate_defined:
  "ds \<noteq> [] \<Longrightarrow>
   aggregate (map Some ds) r =
     \<lparr>radius = r,
      averageDistance = Some (sum_list ds / real (length ds)),
      percentEscaped = Some (100 * real (length (filter (\<lambda>d. r \<le> d) ds)) / real (length ds))\<rparr>"
  by (simp add: aggregate_def foldl_number_add filter_number_ge divide_length_def number_times_def)

lemma aggregate_example:
  "aggregate [Some 1, Some 2, Some 3, Some 4] 3 =
     \<lparr>radius = 3, averageDistance = Some 2.5, percentEscaped = Some 50\<rparr>"
  by (simp add: aggregate_def divide_length_def number_times_def)

lemma radiusLoop_eq:
  "1 \<le> i \<Longrightarrow> radiusLoop unit bound i = map (\<lambda>k. unit * real k) [i..<Suc (nat \<lfloor>bound\<rfloor>)]"
proof (induction unit bound i rule: radiusLoop.induct)
  case (1 unit bound i)
  show ?case
  proof (cases "real i \<le> bound")
    case True
    then have "int i \<le> \<lfloor>bound\<rfloor>"
      by (simp add: le_floor_iff)
    then have "i < Suc (nat \<lfloor>bound\<rfloor>)"
      by linarith
    then have "[i..<Suc (nat \<lfloor>bound\<rfloor>)] = i # [Suc i..<Suc (nat \<lfloor>bound\<rfloor>)]"
      by (rule upt_conv_Cons)
    moreover have "radiusLoop unit bound (Suc i) = map (\<lambda>k. unit * real k) [Suc i..<Suc (nat \<lfloor>bound\<rfloor>)]"
      using True by (intro "1.IH") simp_all
    ultimately show ?thesis
      using True by (subst radiusLoop.simps) simp
  next
    case False
    then have "\<lfloor>bound\<rfloor> < int i"
      by (simp add: floor_less_iff)
    then have "nat \<lfloor>bound\<rfloor> < i"
      using "1.prems" by linarith
    then have "[i..<Suc (nat \<lfloor>bound\<rfloor>)] = []"
      by simp
    then show ?thesis
      using False by (subst radiusLoop.simps) simp
  qed
qed

lemma createRadiusStream_eq:
  assumes "1 \<le> sf"
  shows "createRadiusStream sf =
     map (\<lambda>k. real k / 10 ^ nat (sf - 1)) [1..<Suc (steps * 10 ^ nat (sf - 1))]"
proof -
  have n: "(10::real) powi (sf - 1) = 10 ^ nat (sf - 1)"
    using assms by (simp add: power_int_def)
  have "real steps * 10 ^ nat (sf - 1) = real (steps * 10 ^ nat (sf - 1))"
    by simp
  then have "nat \<lfloor>real steps * 10 ^ nat (sf - 1)\<rfloor> = steps * 10 ^ nat (sf - 1)"
    by (simp only: floor_of_nat nat_int)
  then show ?thesis
    by (simp add: createRadiusStream_def n radiusLoop_eq Let_def)
qed

section \<open>Properties of the step composer on doubles\<close>

lemma overflow_threshold_pos: "0 < overflow_threshold"
  by (simp add: overflow_threshold_def)

lemma rounded_Fin: "\<bar>x\<bar> \<le> 2 ^ 1023 \<Longrightarrow> rounded x = Fin x"
  by (simp add: rounded_def overflow_threshold_def abs_le_iff) 

lemma rounded_nonneg: "0 \<le> x \<Longrightarrow> rounded x = PosInf \<or> rounded x = Fin x"
  using overflow_threshold_pos by (simp add: rounded_def)

lemma rounded_overflow: "2 ^ 1024 \<le> x \<Longrightarrow> rounded x = PosInf"
  by (simp add: rounded_def overflow_threshold_def)

lemma calculateDistance_double_overflow_NaN: "calculateDistance_double (Fin (2 ^ 1023)) (Fin 0) = NaN"
proof -
  have "rounded ((2 ^ 1023) ^ 2) = PosInf"
    by (intro rounded_overflow) simp
  moreover have "rounded (2 * 2 ^ 1023) = PosInf"
    by (intro rounded_overflow) simp
  ultimately show ?thesis
    by (simp add: calculateDistance_double_def double_sub_def)
qed

lemma calculateDistance_double_overflow_Infinity: "calculateDistance_double (Fin (2 ^ 600)) (Fin 0) = PosInf"
proof -
  have "rounded ((2 ^ 600) ^ 2) = PosInf"
    by (intro rounded_overflow) simp
  moreover have "rounded (2 * 2 ^ 600) = Fin (2 * 2 ^ 600)"
    by (intro rounded_Fin) simp
  ultimately show ?thesis
    by (simp add: calculateDistance_double_def double_sub_def)
qed


lemma double_sub_Fin: "double_sub (Fin a) (Fin b) = rounded (a - b)"
  by (simp add: double_sub_def)

lemma double_sub_PosInf: "double_sub PosInf (Fin b) = PosInf"
  by (simp add: double_sub_def)

lemma square_bound: "0 \<le> d \<Longrightarrow> d \<le> 2 ^ 511 \<Longrightarrow> d ^ 2 \<le> 2 ^ 1022" for d :: real
proof -
  assume "0 \<le> d" "d \<le> 2 ^ 511"
  then have "d ^ 2 \<le> (2 ^ 511) ^ 2"
    by (intro power_mono)
  then show ?thesis
    by simp
qed

lemma product_bound: "0 \<le> d \<Longrightarrow> \<bar>2 * d * cos t\<bar> \<le> 2 * d" for d t :: real
proof -
  assume d: "0 \<le> d"
  have "\<bar>2 * d * cos t\<bar> = 2 * d * \<bar>cos t\<bar>"
    using d by (simp add: abs_mult)
  also have "\<dots> \<le> 2 * d * 1"
    using d by (intro mult_left_mono) simp_all
  finally show ?thesis
    by simp
qed

lemma calculateDistance_double_exact:
  assumes "0 \<le> d" and "d \<le> 2 ^ 511"
  shows "calculateDistance_double (Fin d) (Fin t) = Fin (sqrt (1 + d ^ 2 - 2 * d * cos t))"
proof -
  have sq: "d ^ 2 \<le> 2 ^ 1022"
    using assms by (rule square_bound)
  have pr: "\<bar>2 * d * cos t\<bar> \<le> 2 * d"
    using assms(1) by (rule product_bound)
  have d2: "2 * d \<le> 2 ^ 512"
    using assms(2) by simp
  have rad: "0 \<le> 1 + d ^ 2 - 2 * d * cos t"
    by (rule radicand_nonneg)
  have r1: "rounded (d ^ 2) = Fin (d ^ 2)"
    using sq by (intro rounded_Fin) simp
  have r2: "rounded (1 + d ^ 2) = Fin (1 + d ^ 2)"
    using sq by (intro rounded_Fin) simp
  have r3: "rounded (2 * d) = Fin (2 * d)"
    using d2 assms(1) by (intro rounded_Fin) simp
  have r4: "rounded (2 * d * cos t) = Fin (2 * d * cos t)"
    using pr d2 by (intro rounded_Fin) simp
  have "1 + d ^ 2 - 2 * d * cos t \<le> 1 + 2 ^ 1022 + 2 ^ 512"
    using sq pr d2 by (simp add: abs_le_iff)
  then have r5: "rounded (1 + d ^ 2 - 2 * d * cos t) = Fin (1 + d ^ 2 - 2 * d * cos t)"
    using rad by (intro rounded_Fin) simp
  show ?thesis
    using rad by (simp add: calculateDistance_double_def r1 r2 r3 r4 r5 double_sub_Fin)
qed

lemma calculateDistance_double_not_NaN:
  assumes "0 \<le> d" and "d \<le> 2 ^ 1022"
  shows "calculateDistance_double (Fin d) (Fin t) = PosInf \<or>
         (\<exists>r. calculateDistance_double (Fin d) (Fin t) = Fin r \<and> 0 \<le> r)"
proof -
  have pr: "\<bar>2 * d * cos t\<bar> \<le> 2 * d"
    using assms(1) by (rule product_bound)
  have d2: "2 * d \<le> 2 ^ 1023"
    using assms(2) by simp
  have rad: "0 \<le> 1 + d ^ 2 - 2 * d * cos t"
    by (rule radicand_nonneg)
  have r3: "rounded (2 * d) = Fin (2 * d)"
    using d2 assms(1) by (intro rounded_Fin) simp
  have r4: "rounded (2 * d * cos t) = Fin (2 * d * cos t)"
    using pr d2 by (intro rounded_Fin) simp
  have product: "double_mul (double_mul (Fin 2) (Fin d)) (Math_cos_double (Fin t)) = Fin (2 * d * cos t)"
    by (simp add: r3 r4)
  have "rounded (d ^ 2) = PosInf \<or> rounded (d ^ 2) = Fin (d ^ 2)"
    by (intro rounded_nonneg) simp
  then have "double_add (Fin 1) (double_square (Fin d)) = PosInf \<or>
      double_add (Fin 1) (double_square (Fin d)) = Fin (1 + d ^ 2)"
    using rounded_nonneg [of "1 + d ^ 2"] by auto
  then show ?thesis
  proof
    assume "double_add (Fin 1) (double_square (Fin d)) = PosInf"
    then have "calculateDistance_double (Fin d) (Fin t) = PosInf"
      unfolding calculateDistance_double_def product by (simp add: double_sub_PosInf)
    then show ?thesis ..
  next
    assume "double_add (Fin 1) (double_square (Fin d)) = Fin (1 + d ^ 2)"
    then have eq: "calculateDistance_double (Fin d) (Fin t) =
        Math_sqrt_double (rounded (1 + d ^ 2 - 2 * d * cos t))"
      unfolding calculateDistance_double_def product by (simp add: double_sub_Fin)
    from rounded_nonneg [OF rad] show ?thesis
    proof
      assume "rounded (1 + d ^ 2 - 2 * d * cos t) = PosInf"
      with eq show ?thesis by simp
    next
      assume "rounded (1 + d ^ 2 - 2 * d * cos t) = Fin (1 + d ^ 2 - 2 * d * cos t)"
      with eq rad show ?thesis by simp
    qed
  qed
qed

lemma calculateDistance_double_agrees:
  "0 \<le> d \<Longrightarrow> d \<le> 2 ^ 511 \<Longrightarrow>
   calculateDistance_double (Fin d) (Fin t) = Fin r \<longleftrightarrow>
   calculateDistance (Some d) (Some t) = Some r"
  by (simp add: calculateDistance_double_exact calculateDistance_Some)

section \<open>Properties of paths of five steps\<close>







section \<open>The claims\<close>

text \<open>
  C1. For every distance \<open>d \<ge> 0\<close> and every angle \<open>theta\<close> in \<open>[0, pi]\<close>, the step composer
  returns exactly \<open>sqrt (1 + d ^ 2 - 2 * d * cos theta)\<close>; it is a function of \<open>d\<close> and \<open>theta\<close>
  alone.
\<close>

theorem calculateDistance_law_of_cosines:
  "0 \<le> d \<Longrightarrow> 0 \<le> theta \<Longrightarrow> theta \<le> pi \<Longrightarrow>
   calculateDistance (Some d) (Some theta) = Some (sqrt (1 + d ^ 2 - 2 * d * cos theta))"
  by (rule calculateDistance_Some)

theorem calculateDistance_law_of_cosines_witness:
  "(0::real) \<le> 1 \<and> (0::real) \<le> pi / 2 \<and> pi / 2 \<le> pi \<and>
   calculateDistance (Some 1) (Some (pi / 2)) = Some (sqrt 2)"
  using calculateDistance_law_of_cosines [of 1 "pi / 2"] by simp

text \<open>
  C2, as stated, fails on doubles: at \<open>d = 2 ^ 1023\<close> and \<open>theta = 0\<close> both \<open>d ** 2\<close> and
  \<open>2 * d\<close> overflow, the radicand is \<open>Infinity - Infinity\<close>, and the result is NaN.
\<close>

theorem calculateDistance_double_counterexample:
  "(0::real) \<le> 2 ^ 1023 \<and> (0::real) \<le> 0 \<and> (0::real) \<le> pi \<and>
   calculateDistance_double (Fin (2 ^ 1023)) (Fin 0) = NaN"
  using calculateDistance_double_overflow_NaN by simp

text \<open>
  C2, amended. For \<open>theta\<close> in \<open>[0, pi]\<close> the result is a non-negative finite number for every
  \<open>d\<close> from 0 to \<open>2 ^ 511\<close>, and it is never NaN and never negative for every \<open>d\<close> from 0 to
  \<open>2 ^ 1022\<close>, where it is a non-negative finite number or \<open>Infinity\<close>: the radicand is
  never negative, so \<^verbatim>\<open>Math.sqrt\<close> does not take its NaN branch there.
\<close>

theorem calculateDistance_double_never_NaN:
  assumes "0 \<le> d" and "0 \<le> theta" and "theta \<le> pi"
  shows "(d \<le> 2 ^ 511 \<longrightarrow>
           (\<exists>r. calculateDistance_double (Fin d) (Fin theta) = Fin r \<and> 0 \<le> r)) \<and>
         (d \<le> 2 ^ 1022 \<longrightarrow>
           calculateDistance_double (Fin d) (Fin theta) = PosInf \<or>
           (\<exists>r. calculateDistance_double (Fin d) (Fin theta) = Fin r \<and> 0 \<le> r))"
proof (intro conjI impI)
  assume "d \<le> 2 ^ 511"
  with assms(1) have "calculateDistance_double (Fin d) (Fin theta) =
      Fin (sqrt (1 + d ^ 2 - 2 * d * cos theta))"
    by (rule calculateDistance_double_exact)
  moreover have "0 \<le> sqrt (1 + d ^ 2 - 2 * d * cos theta)"
    using radicand_nonneg [of d theta] by simp
  ultimately show "\<exists>r. calculateDistance_double (Fin d) (Fin theta) = Fin r \<and> 0 \<le> r"
    by blast
next
  assume "d \<le> 2 ^ 1022"
  with assms(1) show "calculateDistance_double (Fin d) (Fin theta) = PosInf \<or>
      (\<exists>r. calculateDistance_double (Fin d) (Fin theta) = Fin r \<and> 0 \<le> r)"
    by (rule calculateDistance_double_not_NaN)
qed

theorem calculateDistance_double_never_NaN_witness:
  "calculateDistance_double (Fin 3) (Fin (pi / 2)) \<noteq> NaN \<and>
   calculateDistance_double (Fin 3) (Fin (pi / 2)) \<noteq> PosInf \<and>
   calculateDistance_double (Fin (2 ^ 600)) (Fin (pi / 2)) \<noteq> NaN"
proof -
  have h: "(0::real) \<le> 3" "(0::real) \<le> pi / 2" "pi / 2 \<le> pi" "(0::real) \<le> 2 ^ 600"
    by simp_all
  have b: "(3::real) \<le> 2 ^ 511" "(2::real) ^ 600 \<le> 2 ^ 1022"
    by simp_all
  from calculateDistance_double_never_NaN [OF h(1) h(2) h(3)] b(1)
  have "\<exists>r. calculateDistance_double (Fin 3) (Fin (pi / 2)) = Fin r \<and> 0 \<le> r"
    by blast
  moreover from calculateDistance_double_never_NaN [OF h(4) h(2) h(3)] b(2)
  have "calculateDistance_double (Fin (2 ^ 600)) (Fin (pi / 2)) = PosInf \<or>
      (\<exists>r. calculateDistance_double (Fin (2 ^ 600)) (Fin (pi / 2)) = Fin r \<and> 0 \<le> r)"
    by blast
  ultimately show ?thesis
    by auto
qed

text \<open>
  C3. Early exit: if the distance of a path is at least the escape radius after step
  \<open>k < stepCount\<close>, then the distance after every later step, and the distance that
  \<^verbatim>\<open>createDistanceStream\<close> yields for the path, is the distance at step \<open>k\<close>, whatever the
  angle stream hands out.
\<close>

theorem early_exit_freeze:
  assumes "k < stepCount"
    and "foldl (advance (Finite escapeRadius)) (Some 0)
           (take k (fst (take_iter thetaStream stepCount))) = Some p"
    and "escapeRadius \<le> p"
  shows "fst (createDistanceStream_next stepCount thetaStream (Finite escapeRadius)) = Some p \<and>
         (\<forall>j\<ge>k. foldl (advance (Finite escapeRadius)) (Some 0)
                   (take j (fst (take_iter thetaStream stepCount))) = Some p)"
proof
  from assms(1) have "k \<le> stepCount"
    by simp
  moreover from assms(3) have frozen: "number_ge (Some p) (Finite escapeRadius)"
    by simp
  ultimately show "fst (createDistanceStream_next stepCount thetaStream (Finite escapeRadius)) = Some p"
    using assms(2) by (intro createDistanceStream_next_frozen [of k]) simp_all
  show "\<forall>j\<ge>k. foldl (advance (Finite escapeRadius)) (Some 0)
                   (take j (fst (take_iter thetaStream stepCount))) = Some p"
  proof (intro allI impI)
    fix j assume "k \<le> j"
    let ?cs = "take j (fst (take_iter thetaStream stepCount))"
    have "take k (fst (take_iter thetaStream stepCount)) = take k ?cs"
      using \<open>k \<le> j\<close> by (simp add: min_def)
    then have "foldl (advance (Finite escapeRadius)) (Some 0) (take k ?cs) = Some p"
      using assms(2) by simp
    then have "foldl (advance (Finite escapeRadius)) (Some 0) (take k ?cs @ drop k ?cs) = Some p"
      using frozen by (simp only: foldl_append advance_frozen)
    then show "foldl (advance (Finite escapeRadius)) (Some 0) ?cs = Some p"
      by (simp only: append_take_drop_id)
  qed
qed

theorem early_exit_freeze_witness:
  "(1::nat) < 3 \<and>
   foldl (advance (Finite 1)) (Some 0) (take 1 (fst (take_iter (Array [pi / 2]) 3))) = Some 1 \<and>
   (1::real) \<le> 1 \<and>
   fst (createDistanceStream_next 3 (Array [pi / 2]) (Finite 1)) = Some 1"
proof -
  have h: "foldl (advance (Finite 1)) (Some 0) (take 1 (fst (take_iter (Array [pi / 2]) 3))) = Some 1"
    by (simp add: take_iter_Array_Cons advance_def calculateDistance_zero)
  have "(1::nat) < 3" and "(1::real) \<le> 1"
    by simp_all
  from early_exit_freeze [OF this(1) h this(2)] h show ?thesis
    by simp
qed

text \<open>
  C4. A path draws exactly \<open>stepCount\<close> angles from the shared angle stream, whatever the
  radius limit is and whether or not the distance freezes on the way: after one path the
  cursor of the stream has moved by \<open>stepCount\<close>, and after \<open>n\<close> paths by \<open>n * stepCount\<close>.
\<close>

theorem path_consumes_stepCount_angles:
  "((\<forall>j<stepCount. g (i + j) \<noteq> None) \<longrightarrow>
      createDistanceStream_next stepCount (Generator g i) radiusLimit =
        (foldl (advance radiusLimit) (Some 0) (map g [i..<i + stepCount]),
         Generator g (i + stepCount))) \<and>
   ((\<forall>j<n * stepCount. g (i + j) \<noteq> None) \<longrightarrow>
      snd (createDistanceStream stepCount (Generator g i) radiusLimit n) =
        Generator g (i + n * stepCount))"
  by (simp add: createDistanceStream_next_Generator createDistanceStream_Generator)

theorem path_consumes_stepCount_angles_witness:
  "snd (createDistanceStream_next 5 (Generator (\<lambda>k. Some (pi / 2)) 0) (Finite 1)) =
     Generator (\<lambda>k. Some (pi / 2)) 5 \<and>
   snd (createDistanceStream 5 (Generator (\<lambda>k. Some (pi / 2)) 0) (Finite 1) 2) =
     Generator (\<lambda>k. Some (pi / 2)) 10"
  using path_consumes_stepCount_angles [of 5 "\<lambda>k. Some (pi / 2)" 0 "Finite 1" 2]
  by simp

text \<open>
  C5. With all draws of \<^verbatim>\<open>Math.random()\<close> in \<open>[0, 1)\<close>, the sampler emits \<open>theta\<close> exactly when
  \<open>theta\<close> is the first candidate \<open>x * pi\<close> whose paired draw \<open>u\<close> satisfies \<open>u \<le> sin theta\<close>; the
  candidates before it fail the test and are discarded. Every emitted angle is \<open>x * pi\<close> for
  a draw \<open>x\<close> in \<open>[0, 1)\<close>, so it lies in \<open>[0, pi]\<close>.
\<close>

theorem createThetaStream_rejection_sampling:
  assumes "\<forall>k. 0 \<le> random k \<and> random k < 1"
  shows "(createThetaStream random c = Some (theta, c') \<longleftrightarrow>
           (\<exists>m. (\<forall>j<m. \<not> random (c + 2 * j + 1) \<le> sin (random (c + 2 * j) * pi)) \<and>
                random (c + 2 * m + 1) \<le> sin (random (c + 2 * m) * pi) \<and>
                theta = random (c + 2 * m) * pi \<and> c' = c + 2 * m + 2)) \<and>
         (createThetaStream random c = Some (theta, c') \<longrightarrow>
           0 \<le> theta \<and> theta \<le> pi \<and> (\<exists>x. 0 \<le> x \<and> x < 1 \<and> theta = x * pi))"
proof (rule conjI)
  show "createThetaStream random c = Some (theta, c') \<longleftrightarrow>
           (\<exists>m. (\<forall>j<m. \<not> random (c + 2 * j + 1) \<le> sin (random (c + 2 * j) * pi)) \<and>
                random (c + 2 * m + 1) \<le> sin (random (c + 2 * m) * pi) \<and>
                theta = random (c + 2 * m) * pi \<and> c' = c + 2 * m + 2)"
  proof (rule iffI)
  assume "createThetaStream random c = Some (theta, c')"
  from createThetaStream_emitted [OF this]
  show "\<exists>m. (\<forall>j<m. \<not> random (c + 2 * j + 1) \<le> sin (random (c + 2 * j) * pi)) \<and>
            random (c + 2 * m + 1) \<le> sin (random (c + 2 * m) * pi) \<and>
            theta = random (c + 2 * m) * pi \<and> c' = c + 2 * m + 2"
    by simp
next
  assume "\<exists>m. (\<forall>j<m. \<not> random (c + 2 * j + 1) \<le> sin (random (c + 2 * j) * pi)) \<and>
            random (c + 2 * m + 1) \<le> sin (random (c + 2 * m) * pi) \<and>
            theta = random (c + 2 * m) * pi \<and> c' = c + 2 * m + 2"
  then obtain m where
    "\<forall>j<m. \<not> random (c + 2 * j + 1) \<le> sin (random (c + 2 * j) * pi)"
    "random (c + 2 * m + 1) \<le> sin (random (c + 2 * m) * pi)"
    and eq: "theta = random (c + 2 * m) * pi" "c' = c + 2 * m + 2"
    by blast
  then have "createThetaStream random c = Some (random (c + 2 * m) * pi, c + 2 * m + 2)"
    by (intro createThetaStream_accepts)
  with eq show "createThetaStream random c = Some (theta, c')"
    by simp
  qed
next
  show "createThetaStream random c = Some (theta, c') \<longrightarrow>
           0 \<le> theta \<and> theta \<le> pi \<and> (\<exists>x. 0 \<le> x \<and> x < 1 \<and> theta = x * pi)"
  proof (rule impI)
  assume "createThetaStream random c = Some (theta, c')"
  from createThetaStream_emitted [OF this] obtain m where theta: "theta = random (c + 2 * m) * pi"
    by auto
  from assms have x: "0 \<le> random (c + 2 * m)" "random (c + 2 * m) < 1"
    by simp_all
  then have "0 \<le> random (c + 2 * m) * pi"
    by simp
  moreover from x have "random (c + 2 * m) * pi \<le> 1 * pi"
    by (intro mult_right_mono) simp_all
  ultimately show "0 \<le> theta \<and> theta \<le> pi \<and> (\<exists>x. 0 \<le> x \<and> x < 1 \<and> theta = x * pi)"
    using theta x by auto
  qed
qed

theorem createThetaStream_rejection_sampling_witness:
  "createThetaStream (\<lambda>k. if k = 0 then 0 else 1 / 2) 0 = Some (pi / 2, 4)"
proof -
  let ?random = "\<lambda>k::nat. if k = 0 then 0 else 1 / 2 :: real"
  have range: "\<forall>k. 0 \<le> ?random k \<and> ?random k < 1"
    by simp
  have "(\<forall>j<1. \<not> ?random (0 + 2 * j + 1) \<le> sin (?random (0 + 2 * j) * pi)) \<and>
        ?random (0 + 2 * 1 + 1) \<le> sin (?random (0 + 2 * 1) * pi) \<and>
        pi / 2 = ?random (0 + 2 * 1) * pi \<and> (4::nat) = 0 + 2 * 1 + 2"
    by simp
  then have "\<exists>m. (\<forall>j<m. \<not> ?random (0 + 2 * j + 1) \<le> sin (?random (0 + 2 * j) * pi)) \<and>
        ?random (0 + 2 * m + 1) \<le> sin (?random (0 + 2 * m) * pi) \<and>
        pi / 2 = ?random (0 + 2 * m) * pi \<and> (4::nat) = 0 + 2 * m + 2"
    by (rule exI)
  with createThetaStream_rejection_sampling [OF range, of 0 "pi / 2" 4] show ?thesis
    by blast
qed

text \<open>
  C6. On a non-empty batch the aggregator returns the arithmetic mean of the distances and
  100 times the share of the distances that are at least the radius; for the distances
  1, 2, 3, 4 and the radius 3 these are 2.5 and 50.
\<close>

theorem aggregate_mean_and_percent:
  "(ds \<noteq> [] \<longrightarrow>
      aggregate (map Some ds) r =
        \<lparr>radius = r,
         averageDistance = Some (sum_list ds / real (length ds)),
         percentEscaped =
           Some (100 * real (length (filter (\<lambda>d. r \<le> d) ds)) / real (length ds))\<rparr>) \<and>
   aggregate [Some 1, Some 2, Some 3, Some 4] 3 =
     \<lparr>radius = 3, averageDistance = Some 2.5, percentEscaped = Some 50\<rparr>"
  using aggregate_defined [of ds r] aggregate_example by blast

theorem aggregate_mean_and_percent_witness:
  "[2, 6 :: real] \<noteq> [] \<and>
   aggregate [Some 2, Some 6] 5 =
     \<lparr>radius = 5, averageDistance = Some 4, percentEscaped = Some 50\<rparr>"
  using aggregate_mean_and_percent [of "[2, 6]" 5] by simp

text \<open>
  C7. For \<open>sf \<ge> 1\<close> significant figures and \<open>unit = 10 powi (- (sf - 1))\<close> the radius
  stream is exactly \<open>unit, 2 * unit, \<dots>, steps * 10 ^ (sf - 1) * unit\<close>: a finite, strictly
  ascending sequence of positive numbers, from one unit up to \<open>steps\<close>.
\<close>

theorem createRadiusStream_sequence:
  assumes "1 \<le> sf"
  shows "createRadiusStream sf =
           map (\<lambda>k. real k * 10 powi (- (sf - 1))) [1..<Suc (steps * 10 ^ nat (sf - 1))] \<and>
         length (createRadiusStream sf) = steps * 10 ^ nat (sf - 1) \<and>
         hd (createRadiusStream sf) = 10 powi (- (sf - 1)) \<and>
         last (createRadiusStream sf) = real steps \<and>
         sorted_wrt (<) (createRadiusStream sf) \<and>
         (\<forall>x\<in>set (createRadiusStream sf). 0 < x)"
proof -
  define N where "N = steps * 10 ^ nat (sf - 1)"
  define u :: real where "u = 10 powi (- (sf - 1))"
  have unit: "u = 1 / 10 ^ nat (sf - 1)"
    using assms by (simp add: u_def power_int_def field_simps)
  have eq: "createRadiusStream sf = map (\<lambda>k. real k * u) [1..<Suc N]"
    using assms by (simp add: createRadiusStream_eq unit N_def)
  have pos: "0 < N"
    by (simp add: steps_def N_def)
  have upos: "0 < u"
    by (simp add: unit)
  have len: "length (createRadiusStream sf) = N"
    by (simp add: eq)
  have ne: "[1..<Suc N] \<noteq> []"
    using pos by simp
  have "[1..<Suc N] = 1 # [Suc 1..<Suc N]"
    using pos by (intro upt_conv_Cons) simp
  then have "hd [1..<Suc N] = 1"
    by (simp only: list.sel)
  then have hd: "hd (createRadiusStream sf) = u"
    using ne by (simp add: eq hd_map del: upt_Suc)
  have "last [1..<Suc N] = N"
    using pos by simp
  then have "last (createRadiusStream sf) = real N * u"
    using ne by (simp add: eq last_map del: upt_Suc)
  then have last: "last (createRadiusStream sf) = real steps"
    by (simp add: unit N_def)
  have "sorted_wrt (\<lambda>k l. real k * u < real l * u) [1..<Suc N]"
    using upos by (simp add: sorted_wrt_iff_nth_less del: upt_Suc)
  then have sorted: "sorted_wrt (<) (createRadiusStream sf)"
    by (simp add: eq sorted_wrt_map del: upt_Suc)
  have "\<forall>x\<in>set (createRadiusStream sf). 0 < x"
    using upos by (auto simp add: eq simp del: upt_Suc)
  with eq len hd last sorted show ?thesis
    unfolding N_def u_def by blast
qed

theorem createRadiusStream_sequence_witness:
  "(1::int) \<le> 1 \<and> createRadiusStream 1 = [1, 2, 3, 4, 5]"
  using createRadiusStream_sequence [of 1] by (simp add: steps_def upt_conv_Cons)




text \<open>
  C9, as stated, fails on doubles: at \<open>d = 2 ^ 600\<close> the square \<open>d ** 2\<close> overflows and the
  step at angle 0 gives \<open>Infinity\<close>, not \<open>\<bar>d - 1\<bar>\<close>.
\<close>

theorem calculateDistance_double_degenerate_counterexample:
  "(0::real) \<le> 2 ^ 600 \<and>
   calculateDistance_double (Fin (2 ^ 600)) (Fin 0) \<noteq> Fin \<bar>2 ^ 600 - 1\<bar>"
  using calculateDistance_double_overflow_Infinity by simp

text \<open>
  C9, amended. From the origin every step lands at distance 1. For a distance \<open>d\<close> that is
  a whole number below \<open>2 ^ 26\<close>, where every intermediate result is a whole number below
  \<open>2 ^ 53\<close>, a step at angle 0 gives \<open>\<bar>d - 1\<bar>\<close> and a step at angle \<open>pi\<close> gives \<open>d + 1\<close>.
\<close>

theorem calculateDistance_double_degenerate:
  "calculateDistance_double (Fin 0) (Fin theta) = Fin 1 \<and>
   (n < 2 ^ 26 \<longrightarrow>
      calculateDistance_double (Fin (real n)) (Fin 0) = Fin \<bar>real n - 1\<bar> \<and>
      calculateDistance_double (Fin (real n)) (Fin pi) = Fin (real n + 1))"
proof (intro conjI impI)
  show "calculateDistance_double (Fin 0) (Fin theta) = Fin 1"
    by (simp add: calculateDistance_double_exact)
next
  assume "n < 2 ^ 26"
  then have "real n \<le> 2 ^ 26"
    by (metis less_imp_le of_nat_le_iff of_nat_numeral of_nat_power)
  also have "(2::real) ^ 26 \<le> 2 ^ 511"
    by simp
  finally have n: "real n \<le> 2 ^ 511" .
  have "1 + (real n) ^ 2 - 2 * real n * cos 0 = (real n - 1) ^ 2"
    by (simp add: power2_diff)
  with n show "calculateDistance_double (Fin (real n)) (Fin 0) = Fin \<bar>real n - 1\<bar>"
    by (simp add: calculateDistance_double_exact)
  have "1 + (real n) ^ 2 - 2 * real n * cos pi = (real n + 1) ^ 2"
    by (simp add: power2_sum)
  with n show "calculateDistance_double (Fin (real n)) (Fin pi) = Fin (real n + 1)"
    by (simp add: calculateDistance_double_exact)
qed

theorem calculateDistance_double_degenerate_witness:
  "calculateDistance_double (Fin 0) (Fin (pi / 4)) = Fin 1 \<and>
   calculateDistance_double (Fin 3) (Fin 0) = Fin 2 \<and>
   calculateDistance_double (Fin 3) (Fin pi) = Fin 4"
proof -
  have "(3::nat) < 2 ^ 26"
    by simp
  with calculateDistance_double_degenerate [of "pi / 4" 3] show ?thesis
    by simp
qed

text \<open>
  C10. \<^verbatim>\<open>take\<close> asks its argument for an iterator on every pull. On a generator object it
  yields the next \<open>n\<close> values; on a non-empty array it yields the first element \<open>n\<close> times,
  which is not the array's prefix as soon as the first two elements differ and \<open>n \<ge> 2\<close>.
  \<^verbatim>\<open>pairStreams\<close> does the same on both of its arguments.
\<close>

theorem take_restarts_iterator:
  "((\<forall>j<n. g (i + j) \<noteq> None) \<longrightarrow>
      take_iter (Generator g i) n = (map g [i..<i + n], Generator g (i + n))) \<and>
   take_iter (Array (x # xs)) n = (replicate n (Some x), Array (x # xs)) \<and>
   (x \<noteq> y \<and> 2 \<le> n \<longrightarrow>
      fst (take_iter (Array (x # y # ys)) n) \<noteq> map Some (take n (x # y # ys))) \<and>
   ((\<forall>j<n. g (i + j) \<noteq> None \<and> h (l + j) \<noteq> None) \<longrightarrow>
      pairStreams (Generator g i) (Generator h l) n = zip (map g [i..<i + n]) (map h [l..<l + n])) \<and>
   pairStreams (Array (x # xs)) (Array (z # zs)) n = replicate n (Some x, Some z)"
proof -
  have "fst (take_iter (Array (x # y # ys)) n) \<noteq> map Some (take n (x # y # ys))"
    if "x \<noteq> y" "2 \<le> n"
  proof -
    from that(2) obtain n' where n: "n = Suc (Suc n')"
      by (metis add_2_eq_Suc le_Suc_ex)
    with that(1) show ?thesis
      by (simp add: take_iter_Array_Cons)
  qed
  then show ?thesis
    by (simp add: take_iter_Generator take_iter_Array_Cons pairStreams_Generator pairStreams_Array)
qed

theorem take_restarts_iterator_witness:
  "take_iter (Generator (\<lambda>k. Some (k * k)) 1) 3 =
     ([Some 1, Some 4, Some 9], Generator (\<lambda>k. Some (k * k)) 4) \<and>
   take_iter (Array [7, 8, 9 :: nat]) 3 = ([Some 7, Some 7, Some 7], Array [7, 8, 9]) \<and>
   fst (take_iter (Array [7, 8, 9 :: nat]) 3) \<noteq> map Some (take 3 [7, 8, 9]) \<and>
   pairStreams (Generator (\<lambda>k. Some (k * k)) 1) (Generator (\<lambda>k. Some (Suc k)) 0) 3 =
     [(Some 1, Some 1), (Some 4, Some 2), (Some 9, Some 3)] \<and>
   pairStreams (Array [7, 8, 9 :: nat]) (Array [True, False]) 3 =
     [(Some 7, Some True), (Some 7, Some True), (Some 7, Some True)]"
proof -
  let ?g = "\<lambda>k::nat. Some (k * k)" and ?h = "\<lambda>k::nat. Some (Suc k)"
  have hyp1: "\<forall>j<3. ?g (1 + j) \<noteq> None"
    by simp
  have hyp2: "(7::nat) \<noteq> 8 \<and> (2::nat) \<le> 3"
    by simp
  have hyp3: "\<forall>j<3. ?g (1 + j) \<noteq> None \<and> ?h (0 + j) \<noteq> None"
    by simp
  have v1: "map ?g [1..<1 + 3] = [Some 1, Some 4, Some 9]"
    by (simp add: upt_conv_Cons)
  have v2: "map ?h [0..<0 + 3] = [Some 1, Some 2, Some 3]"
    by (simp add: upt_conv_Cons)
  have v3: "replicate 3 a = [a, a, a]" for a :: 'a
    by (simp add: numeral_3_eq_3)
  from take_restarts_iterator
    [of 3 ?g 1 "7::nat" "[8, 9]" 8 "[9]" ?h 0 True "[False]"] hyp1 hyp2 hyp3
  have "take_iter (Generator ?g 1) 3 = (map ?g [1..<1 + 3], Generator ?g (1 + 3)) \<and>
    take_iter (Array [7, 8, 9 :: nat]) 3 = (replicate 3 (Some 7), Array [7, 8, 9]) \<and>
    fst (take_iter (Array [7, 8, 9 :: nat]) 3) \<noteq> map Some (take 3 [7, 8, 9]) \<and>
    pairStreams (Generator ?g 1) (Generator ?h 0) 3 = zip (map ?g [1..<1 + 3]) (map ?h [0..<0 + 3]) \<and>
    pairStreams (Array [7, 8, 9 :: nat]) (Array [True, False]) 3 = replicate 3 (Some 7, Some True)"
    by blast
  then show ?thesis
    unfolding v1 v2 v3 by simp
qed

end
